theory Spec2Isabelle
  imports Main "HOL-Library.AList"
begin

section \<open>Change tracking in \<^verbatim>\<open>redash/models/changes.py\<close>\<close>

text \<open>
  A shallow embedding of the module: the ledger entity \<^verbatim>\<open>Change\<close> with
  \<^verbatim>\<open>to_dict\<close> and \<^verbatim>\<open>last_change\<close>, the helpers
  \<^verbatim>\<open>get_object_changes\<close> and \<^verbatim>\<open>get_relation_attr\<close>, and the class
  \<^verbatim>\<open>ChangeTracking\<close> that the decorator \<^verbatim>\<open>track_changes\<close> builds, with its
  \<^verbatim>\<open>__setattr__\<close> and \<^verbatim>\<open>record_changes\<close>.
\<close>

subsection \<open>Values, dictionaries, exceptions\<close>

text \<open>
  Attribute values are Python objects; the ones the module handles are \<^verbatim>\<open>None\<close>,
  integers, strings and references to other objects (an address of the heap below).
  \<^verbatim>\<open>!=\<close> on them is structural inequality.
\<close>

datatype val = VNone | VInt int | VStr string | VRef nat

text \<open>
  A Python \<^verbatim>\<open>dict\<close> keeps insertion order and has one entry per key: it is an
  association list, read with \<^const>\<open>map_of\<close> and written with \<^const>\<open>AList.update\<close>
  (an existing key keeps its place, a new key goes to the end).
\<close>

type_synonym ('k, 'v) dict = "('k \<times> 'v) list"

datatype error = AttributeError | TypeError | ValueError

text \<open>Every method here returns \<^verbatim>\<open>None\<close>: a call either returns or raises.\<close>

datatype outcome = Returned | Raised error

text \<open>\<^verbatim>\<open>Change.Type\<close>\<close>

datatype Type = Created | Modified | Deleted

text \<open>
  The JSON-like payload stored in the column \<^verbatim>\<open>change\<close>. A dictionary key is a
  string, or \<^verbatim>\<open>None\<close> when \<^verbatim>\<open>get_relation_attr\<close> found no relationship and its
  result is used as a key.
\<close>

datatype json =
    JVal val
  | JType Type
  | JList "json list"
  | JDict "(string option, json) dict"

text \<open>An entry of \<^verbatim>\<open>__changes__\<close>: \<^verbatim>\<open>{"previous": ..., "current": ...}\<close>.\<close>

record change =
  previous :: val
  current :: val

definition change_json :: "change \<Rightarrow> json" where
  "change_json c =
     JDict [(Some ''previous'', JVal (previous c)), (Some ''current'', JVal (current c))]"

definition changes_json :: "(string, change) dict \<Rightarrow> json" where
  "changes_json d = JDict (map (\<lambda>(col, c). (Some col, change_json c)) d)"

subsection \<open>Mapper metadata (\<^verbatim>\<open>sqlalchemy.inspect\<close>)\<close>

text \<open>
  Classes are named. \<^verbatim>\<open>inspect(cls)\<close> is supplied by the ORM: for each class the
  column attributes in order (attribute key, the names of the columns of
  \<^verbatim>\<open>attr.columns\<close>) and the relationships in order (key, target class). It is a
  parameter \<open>inspect\<close> of the functions below.
\<close>

type_synonym cname = string

record mapper =
  column_attrs :: "(string \<times> string list) list"
  relationships :: "(string \<times> cname) list"

subsection \<open>\<^verbatim>\<open>get_object_changes\<close>\<close>

text \<open>
  First loop: \<^verbatim>\<open>col, = attr.columns; columns[attr.key] = col.name\<close>. The unpacking
  raises \<^verbatim>\<open>ValueError\<close> unless the attribute has exactly one column.
\<close>

fun columns_loop ::
  "(string \<times> string list) list \<Rightarrow> (string, string) dict \<Rightarrow> error + (string, string) dict" where
  "columns_loop [] columns = Inr columns"
| "columns_loop ((key, cols) # rest) columns =
     (case cols of
        [name] \<Rightarrow> columns_loop rest (AList.update key name columns)
      | _ \<Rightarrow> Inl ValueError)"

text \<open>\<^verbatim>\<open>columns.get(key, key)\<close>\<close>

definition columns_get :: "(string, string) dict \<Rightarrow> string \<Rightarrow> string" where
  "columns_get columns key = (case map_of columns key of None \<Rightarrow> key | Some col \<Rightarrow> col)"

text \<open>Second loop, over \<^verbatim>\<open>changes.items()\<close>.\<close>

fun changes_loop ::
  "(string, string) dict \<Rightarrow> (string, change) dict \<Rightarrow> (string, change) dict
     \<Rightarrow> (string, change) dict" where
  "changes_loop columns [] result = result"
| "changes_loop columns ((key, change) # rest) result =
     changes_loop columns rest
       (if current change \<noteq> previous change
        then AList.update (columns_get columns key) change result
        else result)"

text \<open>
  \<open>get_object_changes inspect klass changes reset\<close>: \<open>klass\<close> is
  \<^verbatim>\<open>obj.__class__\<close> and \<open>changes\<close> is \<^verbatim>\<open>getattr(obj, "__changes__", None)\<close>.
  The function returns \<^verbatim>\<open>result\<close> together with the dictionary \<^verbatim>\<open>__changes__\<close> as
  the call leaves it (\<^verbatim>\<open>changes.clear()\<close> empties it in place). An empty dictionary
  is falsy, so the metadata is not consulted for it.
\<close>

definition get_object_changes ::
  "(cname \<Rightarrow> mapper) \<Rightarrow> cname \<Rightarrow> (string, change) dict option \<Rightarrow> bool
     \<Rightarrow> error + ((string, change) dict \<times> (string, change) dict option)" where
  "get_object_changes inspect klass changes reset =
     (case changes of
        None \<Rightarrow> Inr ([], None)
      | Some chs \<Rightarrow>
          if chs = [] then Inr ([], Some chs)
          else
            (case columns_loop (column_attrs (inspect klass)) [] of
               Inl e \<Rightarrow> Inl e
             | Inr columns \<Rightarrow>
                 Inr (changes_loop columns chs [], if reset then Some [] else Some chs)))"

subsection \<open>\<^verbatim>\<open>get_relation_attr\<close>\<close>

fun relationships_loop :: "(string \<times> cname) list \<Rightarrow> cname \<Rightarrow> string option" where
  "relationships_loop [] target = None"
| "relationships_loop ((key, item) # rest) target =
     (if item = target then Some key else relationships_loop rest target)"

definition get_relation_attr :: "(cname \<Rightarrow> mapper) \<Rightarrow> cname \<Rightarrow> cname \<Rightarrow> string option" where
  "get_relation_attr inspect source target =
     relationships_loop (relationships (inspect source)) target"

subsection \<open>Instances, the class attribute \<^verbatim>\<open>__changes__\<close>, the sessions\<close>

text \<open>
  An instance has its attributes, its class, and the session it is attached to
  (\<^verbatim>\<open>object_session(self)\<close>), if any.
\<close>

record entity =
  attrs :: "(string, val) dict"
  klass :: cname
  object_session :: "nat option"

text \<open>\<^verbatim>\<open>getattr(obj, key)\<close> raises when the attribute is missing.\<close>

definition getattr :: "entity \<Rightarrow> string \<Rightarrow> error + val" where
  "getattr obj key =
     (case map_of (attrs obj) key of None \<Rightarrow> Inl AttributeError | Some v \<Rightarrow> Inr v)"

text \<open>
  \<^verbatim>\<open>getattr(obj, key, default)\<close>: the default replaces a missing attribute only. A
  name that is not a string (here \<^verbatim>\<open>None\<close>) raises \<^verbatim>\<open>TypeError\<close> whatever the
  default.
\<close>

definition getattr_default :: "entity \<Rightarrow> string option \<Rightarrow> val \<Rightarrow> error + val" where
  "getattr_default obj key dflt =
     (case key of
        None \<Rightarrow> Inl TypeError
      | Some k \<Rightarrow> (case map_of (attrs obj) k of None \<Rightarrow> Inr dflt | Some v \<Rightarrow> Inr v))"

text \<open>
  The arguments of a call \<^verbatim>\<open>Change(object=..., object_version=..., user=...,
  change=...)\<close>, as \<^verbatim>\<open>record_changes\<close> passes them to \<^verbatim>\<open>session.add\<close>.
\<close>

record Change_kwargs =
  kw_object :: val
  kw_object_version :: val
  kw_user :: val
  kw_change :: json

text \<open>
  The state the class \<^verbatim>\<open>ChangeTracking\<close> works on. \<^verbatim>\<open>__changes__ = {}\<close> is
  written in the class body, and \<^verbatim>\<open>__setattr__\<close> only ever mutates that dictionary
  (\<^verbatim>\<open>self.__changes__[key] = change\<close> is an item assignment on the object found by
  attribute lookup): there is one dictionary \<open>changes\<close> for the class, not one per
  instance. \<open>heap\<close> holds the instances by address, \<open>added\<close> the calls of
  \<^verbatim>\<open>session.add\<close> in order, each with its session.
\<close>

record state =
  heap :: "nat \<Rightarrow> entity"
  changes :: "(string, change) dict"
  added :: "(nat \<times> Change_kwargs) list"

subsection \<open>\<^verbatim>\<open>track_changes\<close> and the class \<^verbatim>\<open>ChangeTracking\<close>\<close>

text \<open>
  What the methods of \<^verbatim>\<open>ChangeTracking\<close> close over: \<^verbatim>\<open>attributes\<close> (after the
  subtraction), \<^verbatim>\<open>parent\<close> and \<^verbatim>\<open>cls\<close>.
\<close>

record tracking =
  attributes :: "string set"
  parent :: "cname option"
  cls :: cname

definition track_changes :: "string list \<Rightarrow> cname option \<Rightarrow> cname \<Rightarrow> tracking" where
  "track_changes attributes0 parent0 cls0 =
     \<lparr>attributes = set attributes0 - {''id'', ''created_at'', ''updated_at'', ''version''},
      parent = parent0,
      cls = cls0\<rparr>"

text \<open>\<^verbatim>\<open>super(ChangeTracking, self).__setattr__(key, value)\<close>\<close>

definition super_setattr :: "nat \<Rightarrow> string \<Rightarrow> val \<Rightarrow> state \<Rightarrow> state" where
  "super_setattr self key value s =
     s\<lparr>heap := (heap s)(self := (heap s self)\<lparr>attrs := AList.update key value (attrs (heap s self))\<rparr>)\<rparr>"

text \<open>
  \<^verbatim>\<open>__setattr__\<close>. The default argument of \<^verbatim>\<open>__changes__.get\<close> is evaluated before
  the call, so \<^verbatim>\<open>getattr(self, key)\<close> runs on every write of a tracked attribute.
\<close>

definition setattr :: "tracking \<Rightarrow> nat \<Rightarrow> string \<Rightarrow> val \<Rightarrow> state \<Rightarrow> outcome \<times> state" where
  "setattr t self key value s =
     (if key \<in> attributes t then
        (case getattr (heap s self) key of
           Inl e \<Rightarrow> (Raised e, s)
         | Inr old \<Rightarrow>
             let change = (case map_of (changes s) key of
                             None \<Rightarrow> \<lparr>previous = old, current = VNone\<rparr>
                           | Some c \<Rightarrow> c);
                 change = change\<lparr>current := value\<rparr>;
                 s = s\<lparr>changes := AList.update key change (changes s)\<rparr>
             in (Returned, super_setattr self key value s))
      else (Returned, super_setattr self key value s))"

text \<open>Lines 136 to 143: \<^verbatim>\<open>session.add(Change(...))\<close>.\<close>

definition session_add :: "nat \<Rightarrow> Change_kwargs \<Rightarrow> state \<Rightarrow> state" where
  "session_add session c s = s\<lparr>added := added s @ [(session, c)]\<rparr>"

definition version_of :: "entity \<Rightarrow> val" where
  "version_of obj = (case map_of (attrs obj) ''version'' of None \<Rightarrow> VNone | Some v \<Rightarrow> v)"

text \<open>
  \<^verbatim>\<open>record_changes\<close>. The state returned with \<open>Raised\<close> is the state the exception
  leaves behind: \<^verbatim>\<open>get_object_changes\<close> has already emptied \<^verbatim>\<open>__changes__\<close> when a
  later line raises.
\<close>

definition record_changes ::
  "(cname \<Rightarrow> mapper) \<Rightarrow> tracking \<Rightarrow> nat \<Rightarrow> val \<Rightarrow> Type \<Rightarrow> state \<Rightarrow> outcome \<times> state" where
  "record_changes inspect t self changed_by change_type s =
     (case object_session (heap s self) of
        None \<Rightarrow> (Returned, s)
      | Some session \<Rightarrow>
          (case get_object_changes inspect (klass (heap s self)) (Some (changes s)) True of
             Inl e \<Rightarrow> (Raised e, s)
           | Inr (chs, left) \<Rightarrow>
               let s = (case left of None \<Rightarrow> s | Some d \<Rightarrow> s\<lparr>changes := d\<rparr>) in
               if chs = [] \<and> change_type = Modified then (Returned, s)
               else
                 let obj = VRef self;
                     inner = [(Some ''type'', JType change_type),
                              (Some ''changes'', changes_json chs)]
                 in
                 (case parent t of
                    None \<Rightarrow>
                      (Returned,
                       session_add session
                         \<lparr>kw_object = obj, kw_object_version = version_of (heap s self),
                          kw_user = changed_by, kw_change = JDict inner\<rparr> s)
                  | Some p \<Rightarrow>
                      let parent_attr = get_relation_attr inspect p (cls t) in
                      (case getattr (heap s self) ''id'' of
                         Inl e \<Rightarrow> (Raised e, s)
                       | Inr i \<Rightarrow>
                           let inner = AList.update (Some ''id'')
                                         (JDict [(Some ''previous'', JVal i),
                                                 (Some ''current'', JVal i)]) inner;
                               outer = [(Some ''type'', JType Modified),
                                        (Some ''changes'',
                                         JDict [(parent_attr, JList [JDict inner])])];
                               parent_attr = get_relation_attr inspect (cls t) p
                           in
                           (case getattr_default (heap s self) parent_attr (VRef self) of
                              Inl e \<Rightarrow> (Raised e, s)
                            | Inr obj \<Rightarrow>
                                (Returned,
                                 session_add session
                                   \<lparr>kw_object = obj,
                                    kw_object_version = version_of (heap s self),
                                    kw_user = changed_by, kw_change = JDict outer\<rparr> s))))))"

subsection \<open>The entity \<^verbatim>\<open>Change\<close>\<close>

text \<open>
  A row of the table \<^verbatim>\<open>changes\<close> as \<^verbatim>\<open>to_dict\<close> and \<^verbatim>\<open>last_change\<close> read
  it. The class body declares \<^verbatim>\<open>id\<close>, \<^verbatim>\<open>object_version\<close>, \<^verbatim>\<open>user_id\<close>,
  \<^verbatim>\<open>user\<close>, \<^verbatim>\<open>change\<close> and \<^verbatim>\<open>created_at\<close>; \<^verbatim>\<open>object_type\<close> and
  \<^verbatim>\<open>object_id\<close> come from \<^verbatim>\<open>GFKBase\<close>. \<^verbatim>\<open>to_dict\<close> also reads
  \<^verbatim>\<open>self.change_type\<close>, which the class body does not declare: the field
  \<open>change_type\<close> is \<open>None\<close> when the entry has no such attribute and \<open>Some v\<close>
  when it has one with value \<open>v\<close>.
  \<^verbatim>\<open>object_version\<close> is an integer column; \<open>None\<close> is SQL \<^verbatim>\<open>NULL\<close>.
\<close>

record Change =
  change_id :: val
  object_id :: val
  object_type :: val
  change_type :: "val option"
  object_version :: "int option"
  change :: json
  created_at :: val
  user :: val
  user_id :: val

definition version_json :: "int option \<Rightarrow> json" where
  "version_json v = (case v of None \<Rightarrow> JVal VNone | Some n \<Rightarrow> JVal (VInt n))"

text \<open>
  \<^verbatim>\<open>to_dict\<close>. \<open>user_to_dict\<close> is \<^verbatim>\<open>User.to_dict\<close>, of another module, on the
  user at an address; \<^verbatim>\<open>self.user.to_dict()\<close> raises when \<^verbatim>\<open>self.user\<close> is not an
  object with that method.
\<close>

definition to_dict :: "(nat \<Rightarrow> json) \<Rightarrow> Change \<Rightarrow> bool \<Rightarrow> error + (string, json) dict" where
  "to_dict user_to_dict self full =
     (case change_type self of
        None \<Rightarrow> Inl AttributeError
      | Some ct \<Rightarrow>
          let d = [(''id'', JVal (change_id self)),
                   (''object_id'', JVal (object_id self)),
                   (''object_type'', JVal (object_type self)),
                   (''change_type'', JVal ct),
                   (''object_version'', version_json (object_version self)),
                   (''change'', change self),
                   (''created_at'', JVal (created_at self))]
          in
          if full then
            (case user self of
               VRef u \<Rightarrow> Inr (AList.update ''user'' (user_to_dict u) d)
             | _ \<Rightarrow> Inl AttributeError)
          else Inr (AList.update ''user_id'' (JVal (user_id self)) d))"

text \<open>
  \<^verbatim>\<open>last_change\<close> is a query: \<^verbatim>\<open>filter\<close>, \<^verbatim>\<open>order_by(object_version.desc())\<close>,
  \<^verbatim>\<open>first()\<close>. Where \<^verbatim>\<open>NULL\<close> sorts depends on the database: it is the largest
  value when \<open>nulls_largest\<close> holds (PostgreSQL), the smallest otherwise.
  \<open>version_le\<close> is the ascending order of the column.
\<close>

fun version_le :: "bool \<Rightarrow> int option \<Rightarrow> int option \<Rightarrow> bool" where
  "version_le nulls_largest None None = True"
| "version_le nulls_largest None (Some b) = (\<not> nulls_largest)"
| "version_le nulls_largest (Some a) None = nulls_largest"
| "version_le nulls_largest (Some a) (Some b) = (a \<le> b)"

text \<open>
  The sort is an insertion sort that keeps rows of equal version in table order (SQL
  leaves their order open); the query returns the first row of the sorted list.
\<close>

fun insert_desc :: "bool \<Rightarrow> Change \<Rightarrow> Change list \<Rightarrow> Change list" where
  "insert_desc nl x [] = [x]"
| "insert_desc nl x (y # ys) =
     (if version_le nl (object_version y) (object_version x)
      then x # y # ys
      else y # insert_desc nl x ys)"

definition order_by_desc :: "bool \<Rightarrow> Change list \<Rightarrow> Change list" where
  "order_by_desc nl rows = foldr (insert_desc nl) rows []"

fun first :: "'a list \<Rightarrow> 'a option" where
  "first [] = None"
| "first (x # xs) = Some x"

text \<open>
  \<open>last_change nl query obj_id tablename\<close>: \<open>query\<close> holds the rows of
  \<^verbatim>\<open>cls.query\<close>, \<open>obj_id\<close> is \<^verbatim>\<open>obj.id\<close> and \<open>tablename\<close> is
  \<^verbatim>\<open>obj.__class__.__tablename__\<close>.
\<close>

definition last_change :: "bool \<Rightarrow> Change list \<Rightarrow> val \<Rightarrow> string \<Rightarrow> Change option" where
  "last_change nl query obj_id tablename =
     first (order_by_desc nl
       (filter (\<lambda>c. object_id c = obj_id \<and> object_type c = VStr tablename) query))"

text \<open>
  The entry that a call \<^verbatim>\<open>Change(object=..., object_version=..., user=...,
  change=...)\<close> constructs, the only way this module creates one (lines 137 to 142).
  The setter of \<^verbatim>\<open>object\<close> belongs to \<^verbatim>\<open>GFKBase\<close>; the \<^verbatim>\<open>object_type\<close> and
  \<^verbatim>\<open>object_id\<close> it derives are the parameters \<open>otype\<close> and \<open>oid\<close>. The columns
  \<^verbatim>\<open>id\<close>, \<^verbatim>\<open>user_id\<close> and \<^verbatim>\<open>created_at\<close> are \<^verbatim>\<open>None\<close> until the session is
  flushed. No keyword sets \<^verbatim>\<open>change_type\<close> and the class body (lines 19 to 25)
  declares no such column or attribute, so the entry has none; the change type is kept
  inside the payload, under \<^verbatim>\<open>"type"\<close>.
\<close>

definition Change_init :: "val \<Rightarrow> val \<Rightarrow> Change_kwargs \<Rightarrow> Change" where
  "Change_init otype oid kw =
     \<lparr>change_id = VNone,
      object_id = oid,
      object_type = otype,
      change_type = None,
      object_version = (case kw_object_version kw of VInt n \<Rightarrow> Some n | _ \<Rightarrow> None),
      change = kw_change kw,
      created_at = VNone,
      user = kw_user kw,
      user_id = VNone\<rparr>"

text \<open>
  A flush of the session assigns the columns of the row: the primary key, the foreign
  key of the user, the timestamp and the stored version (line 21 gives
  \<^verbatim>\<open>object_version\<close> a default). The values are parameters; a flush adds no
  attribute to the entry.
\<close>

definition flushed :: "val \<Rightarrow> val \<Rightarrow> val \<Rightarrow> int option \<Rightarrow> Change \<Rightarrow> Change" where
  "flushed n uid now ver c =
     c\<lparr>change_id := n, user_id := uid, created_at := now, object_version := ver\<rparr>"

subsection \<open>Sequences of calls\<close>


text \<open>
  A call of \<^verbatim>\<open>get_object_changes(obj, reset)\<close> on an instance of the tracked class,
  as a step on the state: it leaves \<^verbatim>\<open>__changes__\<close> as the function returns it.
\<close>

definition call_get_object_changes :: "(cname \<Rightarrow> mapper) \<Rightarrow> nat \<Rightarrow> bool \<Rightarrow> state \<Rightarrow> state" where
  "call_get_object_changes inspect obj reset s =
     (case get_object_changes inspect (klass (heap s obj)) (Some (changes s)) reset of
        Inl e \<Rightarrow> s
      | Inr (res, left) \<Rightarrow> (case left of None \<Rightarrow> s | Some d \<Rightarrow> s\<lparr>changes := d\<rparr>))"

text \<open>
  The calls a client can make on instances of one tracked class, and the state a
  sequence of them leaves (a call that raises leaves the state it reached).
\<close>

datatype call =
    SetAttr nat string val
  | RecordChanges nat val Type
  | GetObjectChanges nat bool

fun step :: "(cname \<Rightarrow> mapper) \<Rightarrow> tracking \<Rightarrow> call \<Rightarrow> state \<Rightarrow> state" where
  "step inspect t (SetAttr self key value) s = snd (setattr t self key value s)"
| "step inspect t (RecordChanges self changed_by ctype) s =
     snd (record_changes inspect t self changed_by ctype s)"
| "step inspect t (GetObjectChanges obj reset) s = call_get_object_changes inspect obj reset s"

definition run :: "(cname \<Rightarrow> mapper) \<Rightarrow> tracking \<Rightarrow> call list \<Rightarrow> state \<Rightarrow> state" where
  "run inspect t calls s = fold (step inspect t) calls s"

text \<open>The entry \<^verbatim>\<open>"changes"\<close> of a payload.\<close>

definition payload_changes :: "json \<Rightarrow> json option" where
  "payload_changes p = (case p of JDict d \<Rightarrow> map_of d (Some ''changes'') | _ \<Rightarrow> None)"

subsection \<open>Example data\<close>

text \<open>
  The example of the specification: \<^verbatim>\<open>Order\<close> has the relationship \<^verbatim>\<open>items\<close> to
  \<^verbatim>\<open>LineItem\<close>, and \<^verbatim>\<open>LineItem\<close> has \<^verbatim>\<open>order\<close> back. Each class has another
  relationship first, to a class that plays no part. The tracked class
  \<^verbatim>\<open>ChangeTracking\<close> built from \<^verbatim>\<open>LineItem\<close> has the mapper of \<^verbatim>\<open>LineItem\<close>.
\<close>

definition ex_inspect :: "cname \<Rightarrow> mapper" where
  "ex_inspect c =
     (if c = ''Order''
      then \<lparr>column_attrs = [(''id'', [''id''])],
            relationships = [(''customer'', ''Customer''), (''items'', ''LineItem'')]\<rparr>
      else \<lparr>column_attrs = [(''id'', [''id'']), (''qty'', [''qty''])],
            relationships = [(''product'', ''Product''), (''order'', ''Order'')]\<rparr>)"

text \<open>The same classes when \<^verbatim>\<open>LineItem\<close> declares no relationship to \<^verbatim>\<open>Order\<close>.\<close>

definition ex_inspect_unlinked :: "cname \<Rightarrow> mapper" where
  "ex_inspect_unlinked c =
     (if c = ''Order''
      then \<lparr>column_attrs = [(''id'', [''id''])], relationships = [(''items'', ''LineItem'')]\<rparr>
      else \<lparr>column_attrs = [(''id'', [''id'']), (''qty'', [''qty''])], relationships = []\<rparr>)"

text \<open>A class whose attribute \<^verbatim>\<open>revision\<close> is stored in the column \<^verbatim>\<open>version\<close>.\<close>

definition ex_inspect_renamed :: "cname \<Rightarrow> mapper" where
  "ex_inspect_renamed c = \<lparr>column_attrs = [(''revision'', [''version''])], relationships = []\<rparr>"

definition ex_tracking :: tracking where
  "ex_tracking = track_changes [''qty'', ''id'', ''version''] (Some ''Order'') ''LineItem''"

definition ex_tracking_flat :: tracking where
  "ex_tracking_flat = track_changes [''qty'', ''id'', ''version''] None ''LineItem''"

definition ex_tracking_renamed :: tracking where
  "ex_tracking_renamed = track_changes [''revision''] None ''Document''"

text \<open>
  Address 0: the line item with id 7 and quantity 1, of the order at address 1, in
  session 0. Address 2: a second line item of that order. Any other address: a line item
  that is attached to no session.
\<close>

definition ex_heap :: "nat \<Rightarrow> entity" where
  "ex_heap a =
     (if a = 0 then
        \<lparr>attrs = [(''id'', VInt 7), (''qty'', VInt 1), (''order'', VRef 1)],
         klass = ''ChangeTracking'', object_session = Some 0\<rparr>
      else if a = 1 then
        \<lparr>attrs = [(''id'', VInt 40)], klass = ''Order'', object_session = Some 0\<rparr>
      else if a = 2 then
        \<lparr>attrs = [(''id'', VInt 8), (''qty'', VInt 5), (''order'', VRef 1)],
         klass = ''ChangeTracking'', object_session = Some 0\<rparr>
      else
        \<lparr>attrs = [(''id'', VInt 9), (''qty'', VInt 2)],
         klass = ''ChangeTracking'', object_session = None\<rparr>)"

definition ex_state :: state where
  "ex_state = \<lparr>heap = ex_heap, changes = [], added = []\<rparr>"

definition ex_state_renamed :: state where
  "ex_state_renamed =
     \<lparr>heap = (\<lambda>a. \<lparr>attrs = [(''revision'', VInt 1)], klass = ''ChangeTracking'',
                    object_session = Some 0\<rparr>),
      changes = [], added = []\<rparr>"

definition ex_user_to_dict :: "nat \<Rightarrow> json" where
  "ex_user_to_dict u = JDict [(Some ''id'', JVal (VInt (int u)))]"

definition ex_row :: "int \<Rightarrow> int \<Rightarrow> int option \<Rightarrow> Change" where
  "ex_row n oid v =
     \<lparr>change_id = VInt n, object_id = VInt oid, object_type = VStr ''orders'',
      change_type = Some (VStr ''modified''), object_version = v, change = JDict [],
      created_at = VInt 1700000000, user = VRef 5, user_id = VInt 5\<rparr>"

definition ex_query :: "Change list" where
  "ex_query = [ex_row 1 40 (Some 1), ex_row 2 41 (Some 9), ex_row 3 40 (Some 3),
               ex_row 4 40 (Some 2)]"

section \<open>Properties\<close>

lemmas ex_defs = ex_inspect_def ex_inspect_unlinked_def ex_inspect_renamed_def ex_tracking_def
  ex_tracking_flat_def ex_tracking_renamed_def ex_heap_def ex_state_def ex_state_renamed_def
  track_changes_def

subsection \<open>Dictionaries and the two loops of \<^verbatim>\<open>get_object_changes\<close>\<close>

lemma set_update_cases:
  "(k', v') \<in> set (AList.update k v al) \<Longrightarrow> (k', v') = (k, v) \<or> (k', v') \<in> set al"
  by (induction al) (auto split: if_splits)

text \<open>The first loop returns when every column attribute has exactly one column.\<close>

lemma columns_loop_total:
  "\<forall>(key, cols) \<in> set as. length cols = 1 \<Longrightarrow> \<exists>columns. columns_loop as acc = Inr columns"
proof (induction as arbitrary: acc)
  case Nil
  then show ?case by simp
next
  case (Cons a as)
  obtain key cols where a: "a = (key, cols)" by (cases a)
  with Cons.prems have "length cols = 1" by simp
  then obtain name where "cols = [name]" by (cases cols) auto
  with a Cons show ?case by simp
qed

text \<open>Every entry of the result comes from a buffered entry whose two values differ.\<close>

lemma changes_loop_mem:
  "(col, c) \<in> set (changes_loop columns chs acc) \<Longrightarrow>
     (col, c) \<in> set acc \<or>
     (\<exists>key. (key, c) \<in> set chs \<and> current c \<noteq> previous c \<and> col = columns_get columns key)"
proof (induction chs arbitrary: acc)
  case Nil
  then show ?case by simp
next
  case (Cons a chs)
  obtain key ch where a: "a = (key, ch)" by (cases a)
  show ?case
  proof (cases "current ch \<noteq> previous ch")
    case True
    with Cons.prems a
    have "(col, c) \<in> set (changes_loop columns chs (AList.update (columns_get columns key) ch acc))"
      by simp
    from Cons.IH[OF this] show ?thesis
      using True a by (auto dest: set_update_cases)
  next
    case False
    with Cons.prems a have "(col, c) \<in> set (changes_loop columns chs acc)" by simp
    from Cons.IH[OF this] show ?thesis by auto
  qed
qed

lemma changes_loop_keys:
  "fst ` set (changes_loop columns chs acc) =
     fst ` set acc \<union> columns_get columns ` {key. \<exists>c. (key, c) \<in> set chs \<and> current c \<noteq> previous c}"
proof (induction chs arbitrary: acc)
  case Nil
  then show ?case by simp
next
  case (Cons a chs)
  obtain key ch where a: "a = (key, ch)" by (cases a)
  show ?case
    unfolding a by (auto simp: Cons.IH dom_update image_iff)
qed

lemma changes_loop_unchanged:
  "\<forall>(key, c) \<in> set chs. current c = previous c \<Longrightarrow> changes_loop columns chs acc = acc"
  by (induction chs arbitrary: acc) auto

lemma get_object_changes_ok:
  assumes "columns_loop (column_attrs (inspect k)) [] = Inr columns"
  shows "get_object_changes inspect k (Some chs) reset =
           Inr (changes_loop columns chs [], Some (if reset then [] else chs))"
  using assms by (cases chs) (simp_all add: get_object_changes_def)

text \<open>With \<^verbatim>\<open>reset=True\<close> a call that returns leaves \<^verbatim>\<open>__changes__\<close> empty.\<close>

lemma get_object_changes_left:
  "get_object_changes inspect k (Some chs) True = Inr (res, left) \<Longrightarrow> left = Some []"
  by (auto simp: get_object_changes_def split: if_splits sum.splits)

lemma get_object_changes_left_any:
  "get_object_changes inspect k (Some chs) reset = Inr (res, left) \<Longrightarrow>
     left = Some chs \<or> left = Some []"
  by (auto simp: get_object_changes_def split: if_splits sum.splits)

subsection \<open>\<^verbatim>\<open>__setattr__\<close>\<close>

lemma setattr_tracked_present:
  assumes "key \<in> attributes t" "map_of (attrs (heap s self)) key = Some old"
  shows "setattr t self key v s =
     (Returned, super_setattr self key v
        (s\<lparr>changes := AList.update key
             ((case map_of (changes s) key of
                 None \<Rightarrow> \<lparr>previous = old, current = VNone\<rparr>
               | Some c \<Rightarrow> c)\<lparr>current := v\<rparr>)
             (changes s)\<rparr>))"
  using assms by (simp add: setattr_def getattr_def Let_def)

text \<open>A write of an attribute that is not tracked touches the instance only.\<close>

lemma setattr_untracked:
  "key \<notin> attributes t \<Longrightarrow> setattr t self key v s = (Returned, super_setattr self key v s)"
  by (simp add: setattr_def)

text \<open>
  A write of a tracked attribute that the instance does not have raises in
  \<^verbatim>\<open>getattr(self, key)\<close>, before the write.
\<close>

lemma setattr_tracked_missing:
  "key \<in> attributes t \<Longrightarrow> map_of (attrs (heap s self)) key = None \<Longrightarrow>
     setattr t self key v s = (Raised AttributeError, s)"
  by (simp add: setattr_def getattr_def)

lemma super_setattr_simps:
  "changes (super_setattr self key v s) = changes s"
  "added (super_setattr self key v s) = added s"
  "map_of (attrs (heap (super_setattr self key v s) self)) key = Some v"
  by (simp_all add: super_setattr_def update_conv')






subsection \<open>\<^verbatim>\<open>get_object_changes\<close>\<close>

text \<open>
  Claim C6. On a class whose column attributes have one column each (so that the
  unpacking \<^verbatim>\<open>col, = attr.columns\<close> succeeds), \<^verbatim>\<open>get_object_changes\<close> with
  \<^verbatim>\<open>reset=True\<close> returns a result \<open>res\<close> and leaves \<^verbatim>\<open>__changes__\<close> empty. Every
  entry of \<open>res\<close> is a buffered entry whose \<open>current\<close> differs from its
  \<open>previous\<close>, under its column name; the keys of \<open>res\<close> are the column names of
  exactly those entries, so an entry with \<open>current = previous\<close> is dropped; \<open>res\<close> is
  empty when \<open>current = previous\<close> for every buffered entry; and the next call, on the
  emptied dictionary, returns the empty result.
\<close>

theorem get_object_changes_drops_and_resets:
  assumes "\<forall>(key, cols) \<in> set (column_attrs (inspect k)). length cols = 1"
  shows "\<exists>columns res.
           columns_loop (column_attrs (inspect k)) [] = Inr columns
         \<and> get_object_changes inspect k (Some chs) True = Inr (res, Some [])
         \<and> (\<forall>(col, c) \<in> set res. \<exists>key. (key, c) \<in> set chs \<and> current c \<noteq> previous c
                \<and> col = columns_get columns key)
         \<and> fst ` set res =
             columns_get columns ` {key. \<exists>c. (key, c) \<in> set chs \<and> current c \<noteq> previous c}
         \<and> ((\<forall>(key, c) \<in> set chs. current c = previous c) \<longrightarrow> res = [])
         \<and> get_object_changes inspect k (Some []) True = Inr ([], Some [])"
proof -
  from columns_loop_total[OF assms] obtain columns
    where c: "columns_loop (column_attrs (inspect k)) [] = Inr columns" by blast
  let ?res = "changes_loop columns chs []"
  have 1: "get_object_changes inspect k (Some chs) True = Inr (?res, Some [])"
    using c get_object_changes_ok[of inspect k columns chs True] by simp
  have 2: "\<forall>(col, c) \<in> set ?res. \<exists>key. (key, c) \<in> set chs \<and> current c \<noteq> previous c
                \<and> col = columns_get columns key"
    using changes_loop_mem[of _ _ columns chs "[]"] by auto
  have 3: "fst ` set ?res =
             columns_get columns ` {key. \<exists>c. (key, c) \<in> set chs \<and> current c \<noteq> previous c}"
    by (simp add: changes_loop_keys)
  have 4: "(\<forall>(key, c) \<in> set chs. current c = previous c) \<longrightarrow> ?res = []"
    by (simp add: changes_loop_unchanged)
  have 5: "get_object_changes inspect k (Some []) True = Inr ([], Some [])"
    by (simp add: get_object_changes_def)
  from c 1 2 3 4 5 show ?thesis by blast
qed

theorem get_object_changes_drops_and_resets_witness:
  "\<exists>columns.
      columns_loop (column_attrs (ex_inspect ''ChangeTracking'')) [] = Inr columns
    \<and> get_object_changes ex_inspect ''ChangeTracking''
         (Some [(''qty'', \<lparr>previous = VInt 1, current = VInt 3\<rparr>),
                (''id'', \<lparr>previous = VInt 7, current = VInt 7\<rparr>)]) True
       = Inr ([(''qty'', \<lparr>previous = VInt 1, current = VInt 3\<rparr>)], Some [])"
proof -
  have h: "\<forall>(key, cols) \<in> set (column_attrs (ex_inspect ''ChangeTracking'')). length cols = 1"
    by (simp add: ex_defs)
  from h get_object_changes_drops_and_resets[of ex_inspect "''ChangeTracking''"
      "[(''qty'', \<lparr>previous = VInt 1, current = VInt 3\<rparr>),
        (''id'', \<lparr>previous = VInt 7, current = VInt 7\<rparr>)]"]
  obtain columns res where
    c: "columns_loop (column_attrs (ex_inspect ''ChangeTracking'')) [] = Inr columns"
    and r: "get_object_changes ex_inspect ''ChangeTracking''
         (Some [(''qty'', \<lparr>previous = VInt 1, current = VInt 3\<rparr>),
                (''id'', \<lparr>previous = VInt 7, current = VInt 7\<rparr>)]) True = Inr (res, Some [])"
    by blast
  have "get_object_changes ex_inspect ''ChangeTracking''
         (Some [(''qty'', \<lparr>previous = VInt 1, current = VInt 3\<rparr>),
                (''id'', \<lparr>previous = VInt 7, current = VInt 7\<rparr>)]) True
       = Inr ([(''qty'', \<lparr>previous = VInt 1, current = VInt 3\<rparr>)], Some [])"
    by (simp add: get_object_changes_def ex_defs columns_get_def)
  with c show ?thesis by blast
qed

subsection \<open>\<^verbatim>\<open>record_changes\<close>\<close>

text \<open>
  Claim C7. On an instance that is attached to no session, \<^verbatim>\<open>record_changes\<close>
  returns without raising, for every actor and every change type, and leaves the whole
  state as it was: nothing is added to any session and \<^verbatim>\<open>__changes__\<close> is not
  touched.
\<close>

theorem record_changes_detached:
  "object_session (heap s self) = None \<Longrightarrow>
   record_changes inspect t self changed_by ctype s = (Returned, s)"
  by (simp add: record_changes_def)

theorem record_changes_detached_witness:
  "object_session (heap ex_state 3) = None
   \<and> record_changes ex_inspect ex_tracking 3 (VRef 5) Created ex_state = (Returned, ex_state)"
proof -
  have h: "object_session (heap ex_state 3) = None"
    by (simp add: ex_state_def ex_heap_def)
  from h record_changes_detached[OF h, of ex_inspect ex_tracking "VRef 5" Created]
  show ?thesis by (rule conjI)
qed

text \<open>
  \<^verbatim>\<open>get_relation_attr\<close> returns the key of the first relationship of the source
  class whose target is the given class, and \<^verbatim>\<open>None\<close> exactly when there is none.
\<close>

lemma relationships_loop_first:
  "target \<notin> snd ` set pre \<Longrightarrow> relationships_loop (pre @ (k, target) # post) target = Some k"
  by (induction pre) auto

lemma relationships_loop_Some:
  "relationships_loop rels target = Some k \<Longrightarrow>
     \<exists>pre post. rels = pre @ (k, target) # post \<and> target \<notin> snd ` set pre"
proof (induction rels)
  case Nil
  then show ?case by simp
next
  case (Cons a rels)
  obtain key item where a: "a = (key, item)" by (cases a)
  show ?case
  proof (cases "item = target")
    case True
    with Cons.prems a have "k = key" by simp
    with True a have "a # rels = [] @ (k, target) # rels \<and> target \<notin> snd ` set []" by simp
    then show ?thesis by blast
  next
    case False
    with Cons.prems a have "relationships_loop rels target = Some k" by simp
    from Cons.IH[OF this] obtain pre post
      where "rels = pre @ (k, target) # post" "target \<notin> snd ` set pre" by blast
    with False a have "a # rels = (a # pre) @ (k, target) # post \<and> target \<notin> snd ` set (a # pre)"
      by auto
    then show ?thesis by blast
  qed
qed

lemma relationships_loop_None:
  "relationships_loop rels target = None \<longleftrightarrow> target \<notin> snd ` set rels"
proof (induction rels)
  case Nil
  then show ?case by simp
next
  case (Cons a rels)
  obtain key item where a: "a = (key, item)" by (cases a)
  show ?case
  proof (cases "item = target")
    case True
    with a show ?thesis by simp
  next
    case False
    with a Cons.IH show ?thesis by simp
  qed
qed

lemma get_relation_attr_first:
  "relationships (inspect source) = pre @ (k, target) # post \<Longrightarrow> target \<notin> snd ` set pre \<Longrightarrow>
     get_relation_attr inspect source target = Some k"
  by (simp add: get_relation_attr_def relationships_loop_first)

text \<open>
  Claim C1. Let the tracked class have the parent \<open>p\<close>; let \<open>parent_attr\<close> be the
  name of the first relationship of \<open>p\<close> whose target is the class, and \<open>back_attr\<close>
  the name of the first relationship of the class whose target is \<open>p\<close>. On an
  attached instance with the attribute \<^verbatim>\<open>id\<close>, whose extracted change set \<open>chs\<close>
  is not empty and whose attribute \<open>back_attr\<close> holds \<open>parent_obj\<close>,
  \<^verbatim>\<open>record_changes\<close> returns and adds exactly one \<^verbatim>\<open>Change\<close> to the session: its
  subject is \<open>parent_obj\<close> and its payload is \<^verbatim>\<open>{type: Modified, changes:
  {parent_attr: [{type: <change type>, changes: <chs>, id: {previous: id, current:
  id}}]}}\<close>.
\<close>

theorem record_changes_parent:
  assumes "parent t = Some p"
    and "relationships (inspect p) = pre @ (parent_attr, cls t) # post"
    and "cls t \<notin> snd ` set pre"
    and "relationships (inspect (cls t)) = pre' @ (back_attr, p) # post'"
    and "p \<notin> snd ` set pre'"
    and "object_session (heap s self) = Some session"
    and "get_object_changes inspect (klass (heap s self)) (Some (changes s)) True = Inr (chs, left)"
    and "chs \<noteq> []"
    and "map_of (attrs (heap s self)) ''id'' = Some i"
    and "map_of (attrs (heap s self)) back_attr = Some parent_obj"
  shows "record_changes inspect t self changed_by ctype s =
     (Returned,
      s\<lparr>changes := [],
        added := added s @
          [(session,
            \<lparr>kw_object = parent_obj,
             kw_object_version = version_of (heap s self),
             kw_user = changed_by,
             kw_change =
               JDict [(Some ''type'', JType Modified),
                      (Some ''changes'',
                       JDict [(Some parent_attr,
                               JList [JDict [(Some ''type'', JType ctype),
                                             (Some ''changes'', changes_json chs),
                                             (Some ''id'',
                                              JDict [(Some ''previous'', JVal i),
                                                     (Some ''current'', JVal i)])]])])]\<rparr>)]\<rparr>)"
proof -
  from assms(7) have l: "left = Some []" by (rule get_object_changes_left)
  have f: "get_relation_attr inspect p (cls t) = Some parent_attr"
    using assms(2,3) by (rule get_relation_attr_first)
  have b: "get_relation_attr inspect (cls t) p = Some back_attr"
    using assms(4,5) by (rule get_relation_attr_first)
  show ?thesis
    using assms(1,6,8-10) f b assms(7)[unfolded l]
    by (simp add: record_changes_def getattr_def getattr_default_def session_add_def)
qed

text \<open>
  The example of the specification: line item 7, \<^verbatim>\<open>qty\<close> from 1 to 3. In both classes
  the relationship that counts is the second one.
\<close>

theorem record_changes_parent_witness:
  "added (snd (record_changes ex_inspect ex_tracking 0 (VRef 5) Modified
                 (snd (setattr ex_tracking 0 ''qty'' (VInt 3) ex_state))))
   = [(0, \<lparr>kw_object = VRef 1, kw_object_version = VNone, kw_user = VRef 5,
          kw_change =
            JDict [(Some ''type'', JType Modified),
                   (Some ''changes'',
                    JDict [(Some ''items'',
                      JList [JDict [(Some ''type'', JType Modified),
                                    (Some ''changes'',
                                     JDict [(Some ''qty'',
                                       JDict [(Some ''previous'', JVal (VInt 1)),
                                              (Some ''current'', JVal (VInt 3))])]),
                                    (Some ''id'',
                                     JDict [(Some ''previous'', JVal (VInt 7)),
                                            (Some ''current'', JVal (VInt 7))])]])])]\<rparr>)]"
proof -
  let ?s = "snd (setattr ex_tracking 0 ''qty'' (VInt 3) ex_state)"
  have s: "?s = \<lparr>heap = ex_heap(0 := (ex_heap 0)\<lparr>attrs :=
                          [(''id'', VInt 7), (''qty'', VInt 3), (''order'', VRef 1)]\<rparr>),
                 changes = [(''qty'', \<lparr>previous = VInt 1, current = VInt 3\<rparr>)], added = []\<rparr>"
    by (simp add: ex_defs setattr_def getattr_def super_setattr_def)
  have 1: "parent ex_tracking = Some ''Order''" by (simp add: ex_defs)
  have 2: "relationships (ex_inspect ''Order'')
             = [(''customer'', ''Customer'')] @ (''items'', cls ex_tracking) # []"
    by (simp add: ex_defs)
  have 3: "cls ex_tracking \<notin> snd ` set [(''customer'', ''Customer'')]" by (simp add: ex_defs)
  have 4: "relationships (ex_inspect (cls ex_tracking))
             = [(''product'', ''Product'')] @ (''order'', ''Order'') # []"
    by (simp add: ex_defs)
  have 5: "''Order'' \<notin> snd ` set [(''product'', ''Product'')]" by simp
  have 6: "object_session (heap ?s 0) = Some 0" by (simp add: s) (simp add: ex_defs)
  have 7: "get_object_changes ex_inspect (klass (heap ?s 0)) (Some (changes ?s)) True
             = Inr ([(''qty'', \<lparr>previous = VInt 1, current = VInt 3\<rparr>)], Some [])"
    by (simp add: s) (simp add: ex_defs get_object_changes_def columns_get_def)
  have 8: "[(''qty'', \<lparr>previous = VInt 1, current = VInt 3\<rparr>)] \<noteq> []" by simp
  have 9: "map_of (attrs (heap ?s 0)) ''id'' = Some (VInt 7)" by (simp add: s)
  have 10: "map_of (attrs (heap ?s 0)) ''order'' = Some (VRef 1)" by (simp add: s)
  from record_changes_parent[of ex_tracking "''Order''" ex_inspect "[(''customer'', ''Customer'')]"
      "''items''" "[]" "[(''product'', ''Product'')]" "''order''" "[]" ?s 0 0
      "[(''qty'', \<lparr>previous = VInt 1, current = VInt 3\<rparr>)]" "Some []" "VInt 7" "VRef 1"
      "VRef 5" Modified] 1 2 3 4 5 6 7 8 9 10
  show ?thesis
    by (simp add: s version_of_def changes_json_def change_json_def)
qed

text \<open>
  When the class has no relationship back to the parent, \<^verbatim>\<open>get_relation_attr\<close>
  returns \<^verbatim>\<open>None\<close> and line 134 evaluates \<^verbatim>\<open>getattr(self, None, self)\<close>, which
  raises \<^verbatim>\<open>TypeError\<close>; by then \<^verbatim>\<open>__changes__\<close> has been emptied.
\<close>

lemma record_changes_no_back_relation:
  assumes "parent t = Some p"
    and "get_relation_attr inspect (cls t) p = None"
    and "object_session (heap s self) = Some session"
    and "get_object_changes inspect (klass (heap s self)) (Some (changes s)) True = Inr (chs, left)"
    and "chs \<noteq> []"
    and "map_of (attrs (heap s self)) ''id'' = Some i"
  shows "record_changes inspect t self changed_by ctype s = (Raised TypeError, s\<lparr>changes := []\<rparr>)"
proof -
  from assms(4) have l: "left = Some []" by (rule get_object_changes_left)
  show ?thesis
    using assms(1-3,5,6) assms(4)[unfolded l]
    by (simp add: record_changes_def getattr_def getattr_default_def)
qed

text \<open>
  Claim C3 says that \<^verbatim>\<open>record_changes\<close> does not raise when the child class has no
  relationship back to the parent, and logs against the instance itself. The code at
  that input: the line item 0 of the example, \<^verbatim>\<open>qty\<close> changed from 1 to 3, on
  classes where \<^verbatim>\<open>LineItem\<close> declares no relationship to \<^verbatim>\<open>Order\<close>. The call
  raises \<^verbatim>\<open>TypeError\<close>, adds nothing to the session, and the buffered change is
  gone.
\<close>

theorem record_changes_unlinked_raises:
  "record_changes ex_inspect_unlinked ex_tracking 0 (VRef 5) Modified
     (snd (setattr ex_tracking 0 ''qty'' (VInt 3) ex_state))
   = (Raised TypeError, (snd (setattr ex_tracking 0 ''qty'' (VInt 3) ex_state))\<lparr>changes := []\<rparr>)
   \<and> added (snd (setattr ex_tracking 0 ''qty'' (VInt 3) ex_state)) = []"
  by (simp add: ex_defs setattr_def getattr_def super_setattr_def record_changes_def
      get_object_changes_def columns_get_def get_relation_attr_def getattr_default_def)

text \<open>
  Claim C4, as stated, fails for a class with a parent: \<^verbatim>\<open>record_changes\<close> with
  \<^verbatim>\<open>Created\<close> on the unchanged line item 0 of the example adds a \<^verbatim>\<open>Change\<close> whose
  payload has, under \<^verbatim>\<open>"changes"\<close>, the dictionary with the key \<^verbatim>\<open>items\<close>, not the
  empty dictionary; the empty change set is one level below.
\<close>

theorem record_changes_empty_counterexample:
  "map (payload_changes \<circ> kw_change \<circ> snd)
     (added (snd (record_changes ex_inspect ex_tracking 0 (VRef 5) Created ex_state)))
   = [Some (JDict [(Some ''items'',
        JList [JDict [(Some ''type'', JType Created), (Some ''changes'', JDict []),
                      (Some ''id'', JDict [(Some ''previous'', JVal (VInt 7)),
                                           (Some ''current'', JVal (VInt 7))])]])])]
   \<and> map (payload_changes \<circ> kw_change \<circ> snd)
        (added (snd (record_changes ex_inspect ex_tracking 0 (VRef 5) Created ex_state)))
     \<noteq> [Some (JDict [])]"
  by (simp add: ex_defs record_changes_def get_object_changes_def session_add_def
      version_of_def changes_json_def get_relation_attr_def getattr_default_def getattr_def
      payload_changes_def)

text \<open>
  Claim C4, amended. On an attached instance whose extracted change set is empty:
  \<^verbatim>\<open>record_changes\<close> with \<^verbatim>\<open>Modified\<close> returns and adds nothing to the session.
  With \<^verbatim>\<open>Created\<close> or \<^verbatim>\<open>Deleted\<close> it returns and adds exactly one \<^verbatim>\<open>Change\<close>:
  on a class with no parent, for the instance itself, with the payload
  \<^verbatim>\<open>{type: <change type>, changes: {}}\<close>; on a class with a parent \<open>p\<close> and a
  relationship \<open>back_attr\<close> to \<open>p\<close>, for the object that \<open>back_attr\<close> holds, with
  the payload \<^verbatim>\<open>{type: Modified, changes: {<parent attribute>: [{type: <change type>,
  changes: {}, id: {previous: id, current: id}}]}}\<close>, where the empty change set is the
  \<^verbatim>\<open>changes\<close> entry of the nested record.
\<close>

theorem record_changes_empty:
  assumes "object_session (heap s self) = Some session"
    and "get_object_changes inspect (klass (heap s self)) (Some (changes s)) True = Inr ([], left)"
  shows "record_changes inspect t self changed_by Modified s = (Returned, s\<lparr>changes := []\<rparr>)
       \<and> added (snd (record_changes inspect t self changed_by Modified s)) = added s
       \<and> (ctype \<noteq> Modified \<and> parent t = None \<longrightarrow>
            record_changes inspect t self changed_by ctype s =
              (Returned,
               s\<lparr>changes := [],
                 added := added s @
                   [(session,
                     \<lparr>kw_object = VRef self,
                      kw_object_version = version_of (heap s self),
                      kw_user = changed_by,
                      kw_change = JDict [(Some ''type'', JType ctype),
                                         (Some ''changes'', JDict [])]\<rparr>)]\<rparr>))
       \<and> (\<forall>p pre back_attr post i parent_obj.
            ctype \<noteq> Modified \<and> parent t = Some p
            \<and> relationships (inspect (cls t)) = pre @ (back_attr, p) # post
            \<and> p \<notin> snd ` set pre
            \<and> map_of (attrs (heap s self)) ''id'' = Some i
            \<and> map_of (attrs (heap s self)) back_attr = Some parent_obj \<longrightarrow>
            record_changes inspect t self changed_by ctype s =
              (Returned,
               s\<lparr>changes := [],
                 added := added s @
                   [(session,
                     \<lparr>kw_object = parent_obj,
                      kw_object_version = version_of (heap s self),
                      kw_user = changed_by,
                      kw_change =
                        JDict [(Some ''type'', JType Modified),
                               (Some ''changes'',
                                JDict [(get_relation_attr inspect p (cls t),
                                        JList [JDict [(Some ''type'', JType ctype),
                                                      (Some ''changes'', JDict []),
                                                      (Some ''id'',
                                                       JDict [(Some ''previous'', JVal i),
                                                              (Some ''current'', JVal i)])]])])]\<rparr>)]\<rparr>))"
proof -
  from assms(2) have l: "left = Some []" by (rule get_object_changes_left)
  note g = assms(2)[unfolded l]
  have 1: "record_changes inspect t self changed_by Modified s = (Returned, s\<lparr>changes := []\<rparr>)"
    using assms(1) g by (simp add: record_changes_def)
  have 2: "added (snd (record_changes inspect t self changed_by Modified s)) = added s"
    by (simp add: 1)
  have 3: "ctype \<noteq> Modified \<and> parent t = None \<longrightarrow>
            record_changes inspect t self changed_by ctype s =
              (Returned,
               s\<lparr>changes := [],
                 added := added s @
                   [(session,
                     \<lparr>kw_object = VRef self,
                      kw_object_version = version_of (heap s self),
                      kw_user = changed_by,
                      kw_change = JDict [(Some ''type'', JType ctype),
                                         (Some ''changes'', JDict [])]\<rparr>)]\<rparr>)"
    using assms(1) g by (simp add: record_changes_def session_add_def changes_json_def)
  have 4: "record_changes inspect t self changed_by ctype s =
              (Returned,
               s\<lparr>changes := [],
                 added := added s @
                   [(session,
                     \<lparr>kw_object = parent_obj,
                      kw_object_version = version_of (heap s self),
                      kw_user = changed_by,
                      kw_change =
                        JDict [(Some ''type'', JType Modified),
                               (Some ''changes'',
                                JDict [(get_relation_attr inspect p (cls t),
                                        JList [JDict [(Some ''type'', JType ctype),
                                                      (Some ''changes'', JDict []),
                                                      (Some ''id'',
                                                       JDict [(Some ''previous'', JVal i),
                                                              (Some ''current'', JVal i)])]])])]\<rparr>)]\<rparr>)"
    if c: "ctype \<noteq> Modified" and p: "parent t = Some p"
      and r: "relationships (inspect (cls t)) = pre @ (back_attr, p) # post" "p \<notin> snd ` set pre"
      and i: "map_of (attrs (heap s self)) ''id'' = Some i"
      and o: "map_of (attrs (heap s self)) back_attr = Some parent_obj"
    for p pre back_attr post i parent_obj
  proof -
    have b: "get_relation_attr inspect (cls t) p = Some back_attr"
      using r by (rule get_relation_attr_first)
    show ?thesis
      using assms(1) g c p b i o
      by (simp add: record_changes_def getattr_def getattr_default_def session_add_def
          changes_json_def)
  qed
  from 1 2 3 4 show ?thesis by blast
qed

theorem record_changes_empty_witness:
  "added (snd (record_changes ex_inspect ex_tracking_flat 0 (VRef 5) Modified ex_state)) = []
   \<and> added (snd (record_changes ex_inspect ex_tracking_flat 0 (VRef 5) Deleted ex_state))
     = [(0, \<lparr>kw_object = VRef 0, kw_object_version = VNone, kw_user = VRef 5,
            kw_change = JDict [(Some ''type'', JType Deleted), (Some ''changes'', JDict [])]\<rparr>)]
   \<and> added (snd (record_changes ex_inspect ex_tracking 0 (VRef 5) Created ex_state))
     = [(0, \<lparr>kw_object = VRef 1, kw_object_version = VNone, kw_user = VRef 5,
            kw_change =
              JDict [(Some ''type'', JType Modified),
                     (Some ''changes'',
                      JDict [(Some ''items'',
                              JList [JDict [(Some ''type'', JType Created),
                                            (Some ''changes'', JDict []),
                                            (Some ''id'',
                                             JDict [(Some ''previous'', JVal (VInt 7)),
                                                    (Some ''current'', JVal (VInt 7))])]])])]\<rparr>)]"
proof -
  have 1: "object_session (heap ex_state 0) = Some 0" by (simp add: ex_defs)
  have 2: "get_object_changes ex_inspect (klass (heap ex_state 0)) (Some (changes ex_state)) True
             = Inr ([], Some [])"
    by (simp add: ex_defs get_object_changes_def)
  have 3: "Deleted \<noteq> Modified \<and> parent ex_tracking_flat = None" by (simp add: ex_defs)
  have 4: "Created \<noteq> Modified \<and> parent ex_tracking = Some ''Order''
         \<and> relationships (ex_inspect (cls ex_tracking))
             = [(''product'', ''Product'')] @ (''order'', ''Order'') # []
         \<and> ''Order'' \<notin> snd ` set [(''product'', ''Product'')]
         \<and> map_of (attrs (heap ex_state 0)) ''id'' = Some (VInt 7)
         \<and> map_of (attrs (heap ex_state 0)) ''order'' = Some (VRef 1)"
    by (simp add: ex_defs)
  have f: "get_relation_attr ex_inspect ''Order'' (cls ex_tracking) = Some ''items''"
    by (simp add: ex_defs get_relation_attr_def)
  from record_changes_empty[OF 1 2, of ex_tracking_flat "VRef 5" Deleted] 3
  have a: "added (snd (record_changes ex_inspect ex_tracking_flat 0 (VRef 5) Modified ex_state)) = []"
    and b: "added (snd (record_changes ex_inspect ex_tracking_flat 0 (VRef 5) Deleted ex_state))
     = [(0, \<lparr>kw_object = VRef 0, kw_object_version = VNone, kw_user = VRef 5,
            kw_change = JDict [(Some ''type'', JType Deleted), (Some ''changes'', JDict [])]\<rparr>)]"
    by (simp_all add: ex_defs version_of_def)
  from record_changes_empty[OF 1 2, of ex_tracking "VRef 5" Created] 4
  have "record_changes ex_inspect ex_tracking 0 (VRef 5) Created ex_state =
              (Returned,
               ex_state\<lparr>changes := [],
                 added := added ex_state @
                   [(0,
                     \<lparr>kw_object = VRef 1,
                      kw_object_version = version_of (heap ex_state 0),
                      kw_user = VRef 5,
                      kw_change =
                        JDict [(Some ''type'', JType Modified),
                               (Some ''changes'',
                                JDict [(get_relation_attr ex_inspect ''Order'' (cls ex_tracking),
                                        JList [JDict [(Some ''type'', JType Created),
                                                      (Some ''changes'', JDict []),
                                                      (Some ''id'',
                                                       JDict [(Some ''previous'', JVal (VInt 7)),
                                                              (Some ''current'', JVal (VInt 7))])]])])]\<rparr>)]\<rparr>)"
    by blast
  then have c: "added (snd (record_changes ex_inspect ex_tracking 0 (VRef 5) Created ex_state))
     = [(0, \<lparr>kw_object = VRef 1, kw_object_version = VNone, kw_user = VRef 5,
            kw_change =
              JDict [(Some ''type'', JType Modified),
                     (Some ''changes'',
                      JDict [(Some ''items'',
                              JList [JDict [(Some ''type'', JType Created),
                                            (Some ''changes'', JDict []),
                                            (Some ''id'',
                                             JDict [(Some ''previous'', JVal (VInt 7)),
                                                    (Some ''current'', JVal (VInt 7))])]])])]\<rparr>)]"
    by (simp add: f) (simp add: ex_defs version_of_def)
  from a b c show ?thesis by (intro conjI)
qed

subsection \<open>One dictionary for all instances\<close>

text \<open>
  Two instances \<open>a\<close> and \<open>b\<close> of the tracked class write the same tracked
  attribute: the second write finds the entry of the first and only replaces
  \<open>current\<close>, so the entry pairs the old value of \<open>a\<close> with the new value of \<open>b\<close>.
\<close>

lemma setattr_shared_buffer:
  assumes "key \<in> attributes t"
    and "map_of (changes s) key = None"
    and "map_of (attrs (heap s a)) key = Some va"
    and "map_of (attrs (heap s b)) key = Some vb"
    and "a \<noteq> b"
  shows "map_of (changes (snd (setattr t b key y (snd (setattr t a key x s))))) key
           = Some \<lparr>previous = va, current = y\<rparr>"
proof -
  let ?s1 = "super_setattr a key x
        (s\<lparr>changes := AList.update key (\<lparr>previous = va, current = x\<rparr>) (changes s)\<rparr>)"
  have 1: "setattr t a key x s = (Returned, ?s1)"
    using assms by (simp add: setattr_tracked_present)
  have b: "map_of (attrs (heap ?s1 b)) key = Some vb"
    using assms by (simp add: super_setattr_def)
  have c: "map_of (changes ?s1) key = Some \<lparr>previous = va, current = x\<rparr>"
    by (simp add: super_setattr_simps update_conv')
  show ?thesis
    using assms(1) b c
    by (simp add: 1 setattr_tracked_present super_setattr_simps update_conv')
qed

text \<open>
  Claim C2 says that the buffer of pending changes belongs to one instance: a write on
  one instance never alters the buffered diff of another, and \<^verbatim>\<open>record_changes\<close> on
  one never consumes what writes to another buffered. The code at two line items of the
  example, 0 (quantity 1) and 2 (quantity 5), of a class tracked without parent: after
  \<^verbatim>\<open>qty = 3\<close> on item 0 and \<^verbatim>\<open>qty = 6\<close> on item 2 the one entry for \<^verbatim>\<open>qty\<close> has
  \<open>previous\<close> 1, of item 0, and \<open>current\<close> 6, of item 2; and after \<^verbatim>\<open>qty = 3\<close> on
  item 0 alone, \<^verbatim>\<open>record_changes\<close> on item 2, which nobody wrote to, adds a
  \<^verbatim>\<open>Change\<close> for item 2 that carries the change of item 0 and empties the buffer.
\<close>

theorem changes_shared_between_instances:
  "changes (snd (setattr ex_tracking_flat 2 ''qty'' (VInt 6)
                 (snd (setattr ex_tracking_flat 0 ''qty'' (VInt 3) ex_state))))
     = [(''qty'', \<lparr>previous = VInt 1, current = VInt 6\<rparr>)]
   \<and> record_changes ex_inspect ex_tracking_flat 2 (VRef 5) Modified
        (snd (setattr ex_tracking_flat 0 ''qty'' (VInt 3) ex_state))
     = (Returned,
        (snd (setattr ex_tracking_flat 0 ''qty'' (VInt 3) ex_state))
          \<lparr>changes := [],
           added := [(0, \<lparr>kw_object = VRef 2, kw_object_version = VNone, kw_user = VRef 5,
                kw_change = JDict [(Some ''type'', JType Modified),
                    (Some ''changes'', JDict [(Some ''qty'',
                        JDict [(Some ''previous'', JVal (VInt 1)),
                               (Some ''current'', JVal (VInt 3))])])]\<rparr>)]\<rparr>)"
  by (simp add: ex_defs setattr_def getattr_def super_setattr_def record_changes_def
      get_object_changes_def columns_get_def session_add_def version_of_def changes_json_def
      change_json_def)

subsection \<open>The attributes that are never tracked\<close>

lemma setattr_changes_keys:
  "fst ` set (changes (snd (setattr t self key v s))) \<subseteq> fst ` set (changes s) \<union> attributes t"
  by (auto simp: setattr_def super_setattr_def getattr_def Let_def dom_update split: option.splits)

lemma record_changes_changes:
  "changes (snd (record_changes inspect t self u ctype s)) = changes s
   \<or> changes (snd (record_changes inspect t self u ctype s)) = []"
proof (cases "get_object_changes inspect (klass (heap s self)) (Some (changes s)) True")
  case (Inl e)
  then show ?thesis by (simp add: record_changes_def split: option.splits)
next
  case (Inr r)
  obtain chs left where r: "r = (chs, left)" by (cases r)
  from Inr r have "left = Some []" by (auto dest: get_object_changes_left)
  with Inr r show ?thesis
    by (simp add: record_changes_def session_add_def Let_def split: option.splits sum.splits)
qed

lemma call_get_object_changes_changes:
  "changes (call_get_object_changes inspect obj reset s) = changes s
   \<or> changes (call_get_object_changes inspect obj reset s) = []"
  by (auto simp: call_get_object_changes_def split: sum.splits option.splits
      dest: get_object_changes_left_any)

lemma step_changes_keys:
  "fst ` set (changes (step inspect t c s)) \<subseteq> fst ` set (changes s) \<union> attributes t"
proof (cases c)
  case (SetAttr self key v)
  then show ?thesis using setattr_changes_keys[of t self key v s] by simp
next
  case (RecordChanges self u ctype)
  then show ?thesis using record_changes_changes[of inspect t self u ctype s] by auto
next
  case (GetObjectChanges obj reset)
  then show ?thesis using call_get_object_changes_changes[of inspect obj reset s] by auto
qed

text \<open>The keys of \<^verbatim>\<open>__changes__\<close> are tracked attributes, whatever the calls.\<close>

lemma run_changes_keys:
  "fst ` set (changes (run inspect t calls s)) \<subseteq> fst ` set (changes s) \<union> attributes t"
proof (induction calls arbitrary: s)
  case Nil
  then show ?case by (simp add: run_def)
next
  case (Cons c calls)
  have "run inspect t (c # calls) s = run inspect t calls (step inspect t c s)"
    by (simp add: run_def)
  with Cons.IH[of "step inspect t c s"] step_changes_keys[of inspect t c s]
  show ?case by auto
qed

lemma run_buffer_keys:
  "changes s0 = [] \<Longrightarrow> key \<in> fst ` set (changes (run inspect t calls s0)) \<Longrightarrow> key \<in> attributes t"
  using run_changes_keys[of inspect t calls s0] by auto

lemma run_diff_keys:
  assumes "changes s0 = []"
    and g: "get_object_changes inspect k (Some (changes (run inspect t calls s0))) reset
              = Inr (res, left)"
    and col: "col \<in> fst ` set res"
  shows "\<exists>columns key. columns_loop (column_attrs (inspect k)) [] = Inr columns
           \<and> key \<in> attributes t \<and> col = columns_get columns key"
proof -
  let ?s = "run inspect t calls s0"
  from col have ne: "res \<noteq> []" by auto
  with g have chs: "changes ?s \<noteq> []"
    by (auto simp: get_object_changes_def split: if_splits)
  with g obtain columns where c: "columns_loop (column_attrs (inspect k)) [] = Inr columns"
    and r: "res = changes_loop columns (changes ?s) []"
    by (auto simp: get_object_changes_def split: sum.splits)
  from col r
  have "col \<in> columns_get columns `
          {key. \<exists>c. (key, c) \<in> set (changes ?s) \<and> current c \<noteq> previous c}"
    by (simp add: changes_loop_keys)
  then obtain key c where kc: "(key, c) \<in> set (changes ?s)" and ck: "col = columns_get columns key"
    by blast
  from kc have "key \<in> fst ` set (changes ?s)" by force
  with assms(1) have "key \<in> attributes t" by (rule run_buffer_keys)
  with c ck show ?thesis by blast
qed

lemma attributes_track_changes:
  "key \<in> attributes (track_changes attributes0 parent0 cls0) \<longleftrightarrow>
     key \<in> set attributes0 \<and> key \<notin> {''id'', ''created_at'', ''updated_at'', ''version''}"
  unfolding track_changes_def by (simp only: tracking.simps Diff_iff)

text \<open>
  Claim C8, as stated, fails: the keys of a produced diff are column names, and the
  exclusion is on attribute names. A class stores its attribute \<^verbatim>\<open>revision\<close> in the
  column \<^verbatim>\<open>version\<close> and tracks \<^verbatim>\<open>revision\<close>; after \<^verbatim>\<open>revision = 2\<close> the diff
  that \<^verbatim>\<open>get_object_changes\<close> produces has the key \<^verbatim>\<open>version\<close>.
\<close>

theorem identifier_fields_untracked_counterexample:
  "get_object_changes ex_inspect_renamed ''ChangeTracking''
     (Some (changes (run ex_inspect_renamed ex_tracking_renamed
               [SetAttr 0 ''revision'' (VInt 2)] ex_state_renamed))) True
   = Inr ([(''version'', \<lparr>previous = VInt 1, current = VInt 2\<rparr>)], Some [])"
  by (simp add: ex_defs run_def setattr_def getattr_def super_setattr_def
      get_object_changes_def columns_get_def)

text \<open>
  Claim C8, amended. Start from the class as the decorator creates it (\<^verbatim>\<open>__changes__\<close>
  empty) and make any sequence of attribute writes, \<^verbatim>\<open>record_changes\<close> and
  \<^verbatim>\<open>get_object_changes\<close> calls on its instances. Then no key of \<^verbatim>\<open>__changes__\<close> is
  one of \<^verbatim>\<open>id\<close>, \<^verbatim>\<open>created_at\<close>, \<^verbatim>\<open>updated_at\<close>, \<^verbatim>\<open>version\<close>, even when the caller
  listed them; and every key of a diff that \<^verbatim>\<open>get_object_changes\<close> produces from it
  (the diff \<^verbatim>\<open>record_changes\<close> logs is such a diff) is the column name of an attribute
  that the caller listed and that is none of the four. So one of the four names is a key
  of a diff only as the column name of a tracked attribute with another name.
\<close>

theorem identifier_fields_untracked:
  assumes "changes s0 = []"
  shows "(\<forall>key \<in> fst ` set (changes (run inspect (track_changes attributes0 parent0 cls0) calls s0)).
            key \<in> set attributes0 \<and> key \<notin> {''id'', ''created_at'', ''updated_at'', ''version''})
       \<and> (\<forall>res left.
            get_object_changes inspect k
              (Some (changes (run inspect (track_changes attributes0 parent0 cls0) calls s0))) reset
              = Inr (res, left) \<longrightarrow>
            (\<forall>col \<in> fst ` set res. \<exists>columns key.
               columns_loop (column_attrs (inspect k)) [] = Inr columns
             \<and> key \<in> set attributes0
             \<and> key \<notin> {''id'', ''created_at'', ''updated_at'', ''version''}
             \<and> col = columns_get columns key))"
proof (intro conjI ballI allI impI)
  fix key
  assume "key \<in> fst ` set (changes (run inspect (track_changes attributes0 parent0 cls0) calls s0))"
  with assms have "key \<in> attributes (track_changes attributes0 parent0 cls0)"
    by (rule run_buffer_keys)
  then show "key \<in> set attributes0"
    and "key \<notin> {''id'', ''created_at'', ''updated_at'', ''version''}"
    unfolding attributes_track_changes by (rule conjunct1, rule conjunct2)
next
  fix res left col
  assume "get_object_changes inspect k
              (Some (changes (run inspect (track_changes attributes0 parent0 cls0) calls s0))) reset
              = Inr (res, left)"
    and "col \<in> fst ` set res"
  with assms obtain columns key where
    c: "columns_loop (column_attrs (inspect k)) [] = Inr columns"
    and k: "key \<in> attributes (track_changes attributes0 parent0 cls0)"
    and e: "col = columns_get columns key"
    using run_diff_keys by blast
  from k have "key \<in> set attributes0 \<and> key \<notin> {''id'', ''created_at'', ''updated_at'', ''version''}"
    unfolding attributes_track_changes .
  with c e show "\<exists>columns key.
               columns_loop (column_attrs (inspect k)) [] = Inr columns
             \<and> key \<in> set attributes0
             \<and> key \<notin> {''id'', ''created_at'', ''updated_at'', ''version''}
             \<and> col = columns_get columns key"
    by blast
qed

theorem identifier_fields_untracked_witness:
  "changes ex_state = []
   \<and> changes (run ex_inspect (track_changes [''qty'', ''id'', ''version''] None ''LineItem'')
        [SetAttr 0 ''id'' (VInt 8), SetAttr 0 ''qty'' (VInt 3)] ex_state)
       = [(''qty'', \<lparr>previous = VInt 1, current = VInt 3\<rparr>)]
   \<and> ''qty'' \<in> set [''qty'', ''id'', ''version'']
   \<and> ''qty'' \<notin> {''id'', ''created_at'', ''updated_at'', ''version''}"
proof -
  have h: "changes ex_state = []" by (simp add: ex_state_def)
  have e: "changes (run ex_inspect (track_changes [''qty'', ''id'', ''version''] None ''LineItem'')
        [SetAttr 0 ''id'' (VInt 8), SetAttr 0 ''qty'' (VInt 3)] ex_state)
       = [(''qty'', \<lparr>previous = VInt 1, current = VInt 3\<rparr>)]"
    by (simp add: ex_defs run_def setattr_def getattr_def super_setattr_def)
  from identifier_fields_untracked[OF h, of ex_inspect "[''qty'', ''id'', ''version'']" None
      "''LineItem''" "[SetAttr 0 ''id'' (VInt 8), SetAttr 0 ''qty'' (VInt 3)]"]
  have a: "\<forall>key \<in> fst ` set (changes (run ex_inspect
             (track_changes [''qty'', ''id'', ''version''] None ''LineItem'')
             [SetAttr 0 ''id'' (VInt 8), SetAttr 0 ''qty'' (VInt 3)] ex_state)).
          key \<in> set [''qty'', ''id'', ''version'']
        \<and> key \<notin> {''id'', ''created_at'', ''updated_at'', ''version''}"
    by (rule conjunct1)
  have m: "''qty'' \<in> fst ` set (changes (run ex_inspect
             (track_changes [''qty'', ''id'', ''version''] None ''LineItem'')
             [SetAttr 0 ''id'' (VInt 8), SetAttr 0 ''qty'' (VInt 3)] ex_state))"
    unfolding e by simp
  from bspec[OF a m]
  have q: "''qty'' \<in> set [''qty'', ''id'', ''version'']"
    and n: "''qty'' \<notin> {''id'', ''created_at'', ''updated_at'', ''version''}"
    by (rule conjunct1, rule conjunct2)
  show ?thesis
    by (rule conjI[OF h conjI[OF e conjI[OF q n]]])
qed

subsection \<open>\<^verbatim>\<open>Change.to_dict\<close>\<close>

text \<open>
  On an entry that has the attribute \<^verbatim>\<open>change_type\<close>, \<^verbatim>\<open>to_dict\<close> returns a
  dictionary with the entry's \<^verbatim>\<open>id\<close>, \<^verbatim>\<open>object_id\<close>, \<^verbatim>\<open>object_type\<close>,
  \<^verbatim>\<open>change_type\<close>, \<^verbatim>\<open>object_version\<close>, \<^verbatim>\<open>change\<close> and \<^verbatim>\<open>created_at\<close>, in this
  order, followed by one more entry: with \<^verbatim>\<open>full=False\<close> the key \<^verbatim>\<open>user_id\<close> with
  the identifier of the actor, and with \<^verbatim>\<open>full=True\<close>, the actor being a user object,
  the key \<^verbatim>\<open>user\<close> with what the actor's own \<^verbatim>\<open>to_dict\<close> returns.
\<close>

lemma to_dict_with_change_type:
  assumes "change_type self = Some ct"
  shows "to_dict user_to_dict self False =
           Inr [(''id'', JVal (change_id self)),
                (''object_id'', JVal (object_id self)),
                (''object_type'', JVal (object_type self)),
                (''change_type'', JVal ct),
                (''object_version'', version_json (object_version self)),
                (''change'', change self),
                (''created_at'', JVal (created_at self)),
                (''user_id'', JVal (user_id self))]
       \<and> (\<forall>u. user self = VRef u \<longrightarrow>
           to_dict user_to_dict self True =
             Inr [(''id'', JVal (change_id self)),
                  (''object_id'', JVal (object_id self)),
                  (''object_type'', JVal (object_type self)),
                  (''change_type'', JVal ct),
                  (''object_version'', version_json (object_version self)),
                  (''change'', change self),
                  (''created_at'', JVal (created_at self)),
                  (''user'', user_to_dict u)])"
  using assms by (simp add: to_dict_def)

text \<open>Without the attribute \<^verbatim>\<open>change_type\<close> the dictionary literal raises.\<close>

lemma to_dict_without_change_type:
  "change_type self = None \<Longrightarrow> to_dict user_to_dict self full = Inl AttributeError"
  by (simp add: to_dict_def)

text \<open>
  Claim C9 says that \<^verbatim>\<open>to_dict\<close> always produces a representation of the entry, with
  the actor in full or by identifier. The code on the entries this module creates: for
  every call \<^verbatim>\<open>Change(object=..., object_version=..., user=..., change=...)\<close>, before
  and after the flush, and for both values of \<^verbatim>\<open>full\<close>, \<^verbatim>\<open>to_dict\<close> raises
  \<^verbatim>\<open>AttributeError\<close> at line 34, where it reads \<^verbatim>\<open>self.change_type\<close>.
\<close>

theorem to_dict_raises:
  "to_dict user_to_dict (Change_init otype oid kw) full = Inl AttributeError
   \<and> to_dict user_to_dict (flushed n uid now ver (Change_init otype oid kw)) full
       = Inl AttributeError"
  by (simp add: to_dict_def Change_init_def flushed_def)

subsection \<open>\<^verbatim>\<open>Change.last_change\<close>\<close>

lemma version_le_total: "version_le nl a b \<or> version_le nl b a"
  by (cases a; cases b) auto

lemma version_le_trans: "version_le nl a b \<Longrightarrow> version_le nl b c \<Longrightarrow> version_le nl a c"
  by (cases a; cases b; cases c) auto

text \<open>Inserting a row keeps the larger of the row and the old first row in front.\<close>

lemma first_insert_desc:
  "first (insert_desc nl x ys) =
     (case first ys of
        None \<Rightarrow> Some x
      | Some y \<Rightarrow> if version_le nl (object_version y) (object_version x) then Some x else Some y)"
  by (cases ys) auto

lemma order_by_desc_Cons: "order_by_desc nl (x # rows) = insert_desc nl x (order_by_desc nl rows)"
  by (simp add: order_by_desc_def)

lemma first_order_by_desc_None: "first (order_by_desc nl rows) = None \<longleftrightarrow> rows = []"
  by (cases rows)
    (auto simp: order_by_desc_Cons first_insert_desc order_by_desc_def split: option.splits)

lemma first_order_by_desc_max:
  "first (order_by_desc nl rows) = Some r \<Longrightarrow>
     r \<in> set rows \<and> (\<forall>r' \<in> set rows. version_le nl (object_version r') (object_version r))"
proof (induction rows arbitrary: r)
  case Nil
  then show ?case by (simp add: order_by_desc_def)
next
  case (Cons x rows)
  show ?case
  proof (cases "first (order_by_desc nl rows)")
    case None
    then have "rows = []" by (simp add: first_order_by_desc_None)
    with Cons.prems show ?thesis
      by (cases "object_version x") (auto simp: order_by_desc_def)
  next
    case (Some y)
    note IH = Cons.IH[OF Some]
    show ?thesis
    proof (cases "version_le nl (object_version y) (object_version x)")
      case True
      with Some Cons.prems have "r = x"
        by (simp add: order_by_desc_Cons first_insert_desc)
      with IH True show ?thesis
        using version_le_total[of nl "object_version x" "object_version x"]
        by (auto intro: version_le_trans)
    next
      case False
      with Some Cons.prems have "r = y"
        by (simp add: order_by_desc_Cons first_insert_desc)
      with IH False show ?thesis
        using version_le_total[of nl "object_version y" "object_version x"] by auto
    qed
  qed
qed

text \<open>
  Claim C10. \<^verbatim>\<open>last_change(obj)\<close> returns \<^verbatim>\<open>None\<close> when the table has no row with
  the id and the table name of \<open>obj\<close>. Otherwise it returns one of these rows, and no row
  for \<open>obj\<close> has a larger \<^verbatim>\<open>object_version\<close>, in the order of the column (among
  integers the usual order; \<^verbatim>\<open>NULL\<close> where the database sorts it).
\<close>

theorem last_change_latest:
  "(filter (\<lambda>c. object_id c = obj_id \<and> object_type c = VStr tablename) query = []
      \<longrightarrow> last_change nl query obj_id tablename = None)
   \<and> (filter (\<lambda>c. object_id c = obj_id \<and> object_type c = VStr tablename) query \<noteq> []
      \<longrightarrow> (\<exists>r. last_change nl query obj_id tablename = Some r
             \<and> r \<in> set query \<and> object_id r = obj_id \<and> object_type r = VStr tablename
             \<and> (\<forall>r' \<in> set query. object_id r' = obj_id \<and> object_type r' = VStr tablename
                    \<longrightarrow> version_le nl (object_version r') (object_version r))))"
proof -
  let ?rows = "filter (\<lambda>c. object_id c = obj_id \<and> object_type c = VStr tablename) query"
  have 1: "?rows = [] \<longrightarrow> last_change nl query obj_id tablename = None"
    by (simp add: last_change_def order_by_desc_def)
  have 2: "\<exists>r. last_change nl query obj_id tablename = Some r
             \<and> r \<in> set query \<and> object_id r = obj_id \<and> object_type r = VStr tablename
             \<and> (\<forall>r' \<in> set query. object_id r' = obj_id \<and> object_type r' = VStr tablename
                    \<longrightarrow> version_le nl (object_version r') (object_version r))"
    if ne: "?rows \<noteq> []"
  proof -
    from ne have "first (order_by_desc nl ?rows) \<noteq> None"
      by (simp add: first_order_by_desc_None)
    then obtain r where r: "first (order_by_desc nl ?rows) = Some r" by auto
    from first_order_by_desc_max[OF r]
    have "r \<in> set ?rows"
      and m: "\<forall>r' \<in> set ?rows. version_le nl (object_version r') (object_version r)"
      by blast+
    then show ?thesis using r by (auto simp: last_change_def)
  qed
  from 1 2 show ?thesis by blast
qed

theorem last_change_latest_witness:
  "filter (\<lambda>c. object_id c = VInt 40 \<and> object_type c = VStr ''orders'') ex_query \<noteq> []
   \<and> filter (\<lambda>c. object_id c = VInt 7 \<and> object_type c = VStr ''orders'') ex_query = []
   \<and> last_change True ex_query (VInt 7) ''orders'' = None
   \<and> (\<exists>r. last_change True ex_query (VInt 40) ''orders'' = Some r \<and> object_version r = Some 3)"
proof -
  have h1: "filter (\<lambda>c. object_id c = VInt 40 \<and> object_type c = VStr ''orders'') ex_query \<noteq> []"
    by (simp add: ex_query_def ex_row_def)
  have h2: "filter (\<lambda>c. object_id c = VInt 7 \<and> object_type c = VStr ''orders'') ex_query = []"
    by (simp add: ex_query_def ex_row_def)
  from h2 last_change_latest[of "VInt 7" "''orders''" ex_query True]
  have n: "last_change True ex_query (VInt 7) ''orders'' = None" by blast
  from h1 last_change_latest[of "VInt 40" "''orders''" ex_query True]
  obtain r where r: "last_change True ex_query (VInt 40) ''orders'' = Some r"
    and m: "\<forall>r' \<in> set ex_query. object_id r' = VInt 40 \<and> object_type r' = VStr ''orders''
                 \<longrightarrow> version_le True (object_version r') (object_version r)"
    and i: "r \<in> set ex_query" "object_id r = VInt 40"
    by blast
  from m have "version_le True (Some 3) (object_version r)"
    by (simp add: ex_query_def ex_row_def)
  with i have "object_version r = Some 3"
    by (auto simp: ex_query_def ex_row_def)
  with h1 h2 n r show ?thesis by blast
qed

end
